theory Spec2Isabelle
  imports Main "HOL-Library.Word"
begin

section \<open>JavaScript strings\<close>

text \<open>
  A JavaScript string is a sequence of UTF-16 code units. Every string operation the
  program uses (\<^verbatim>\<open>trim\<close>, \<^verbatim>\<open>startsWith\<close>, \<^verbatim>\<open>includes\<close>, \<^verbatim>\<open>split\<close>, \<^verbatim>\<open>replace\<close> with
  the regular expressions below) works on code units, so a string is modelled as a list of
  16-bit words. \<open>js\<close> embeds an ASCII literal.
\<close>

type_synonym jschar = "16 word"
type_synonym jsstring = "jschar list"

definition js :: "string \<Rightarrow> jsstring" where
  "js s = map of_char s"

definition underscore :: jschar where
  "underscore = 0x5F"

definition equalsSign :: jschar where
  "equalsSign = 0x3D"

definition newline :: jschar where
  "newline = 0x0A"

text \<open>
  The white space of ECMAScript (WhiteSpace and LineTerminator): what \<^verbatim>\<open>trim()\<close> strips
  and what \<^verbatim>\<open>\s\<close> matches in a regular expression without the unicode flag.
\<close>

definition isWhiteSpace :: "jschar \<Rightarrow> bool" where
  "isWhiteSpace c \<longleftrightarrow>
     (0x09 \<le> c \<and> c \<le> 0x0D) \<or> c = 0x20 \<or> c = 0xA0 \<or> c = 0x1680
     \<or> (0x2000 \<le> c \<and> c \<le> 0x200A) \<or> c = 0x2028 \<or> c = 0x2029 \<or> c = 0x202F
     \<or> c = 0x205F \<or> c = 0x3000 \<or> c = 0xFEFF"

definition trim :: "jsstring \<Rightarrow> jsstring" where
  "trim s = rev (dropWhile isWhiteSpace (rev (dropWhile isWhiteSpace s)))"

definition startsWith :: "jsstring \<Rightarrow> jsstring \<Rightarrow> bool" where
  "startsWith s p \<longleftrightarrow> take (length p) s = p"

definition includesChar :: "jsstring \<Rightarrow> jschar \<Rightarrow> bool" where
  "includesChar s c \<longleftrightarrow> c \<in> set s"

text \<open>
  \<^verbatim>\<open>s.split(sep)\<close> for a separator of one code unit: the pieces between the separators,
  \<^verbatim>\<open>[""]\<close> for the empty string. \<^verbatim>\<open>s.split(sep, limit)\<close> cuts the string at every
  separator and then keeps the first \<open>limit\<close> pieces.
\<close>

fun split :: "jschar \<Rightarrow> jsstring \<Rightarrow> jsstring list" where
  "split sep [] = [[]]"
| "split sep (c # cs) =
     (if c = sep then [] # split sep cs
      else (case split sep cs of
              [] \<Rightarrow> [[c]]
            | p # ps \<Rightarrow> (c # p) # ps))"

definition splitLimit :: "jschar \<Rightarrow> nat \<Rightarrow> jsstring \<Rightarrow> jsstring list" where
  "splitLimit sep limit s = take limit (split sep s)"

section \<open>Filename sanitization\<close>

text \<open>
  \<^verbatim>\<open>
  static sanitizeFilename(filename: string): string {
    const sanitized = filename
      .replace(/[^a-zA-Z0-9.-]/g, '_')
      .toLowerCase()
      .replace(/_{2,}/g, '_')
      .replace(/^_|_$/g, '');
    return sanitized || 'uploaded_file';
  }
  \<close>
\<close>

definition isLower :: "jschar \<Rightarrow> bool" where
  "isLower c \<longleftrightarrow> 0x61 \<le> c \<and> c \<le> 0x7A"

definition isUpper :: "jschar \<Rightarrow> bool" where
  "isUpper c \<longleftrightarrow> 0x41 \<le> c \<and> c \<le> 0x5A"

definition isDigit :: "jschar \<Rightarrow> bool" where
  "isDigit c \<longleftrightarrow> 0x30 \<le> c \<and> c \<le> 0x39"

text \<open>The character class \<^verbatim>\<open>[a-zA-Z0-9.-]\<close>.\<close>

definition isAllowedChar :: "jschar \<Rightarrow> bool" where
  "isAllowedChar c \<longleftrightarrow> isLower c \<or> isUpper c \<or> isDigit c \<or> c = 0x2E \<or> c = 0x2D"

text \<open>\<^verbatim>\<open>.replace(/[^a-zA-Z0-9.-]/g, '_')\<close>: every code unit outside the class becomes \<^verbatim>\<open>_\<close>.\<close>

definition replaceDisallowed :: "jsstring \<Rightarrow> jsstring" where
  "replaceDisallowed s = map (\<lambda>c. if isAllowedChar c then c else underscore) s"

text \<open>
  \<^verbatim>\<open>.toLowerCase()\<close>. The sanitizer applies it to the result of \<open>replaceDisallowed\<close>, a
  string over \<^verbatim>\<open>[a-zA-Z0-9.-_]\<close>, where it maps \<^verbatim>\<open>A-Z\<close> to \<^verbatim>\<open>a-z\<close> and leaves every
  other code unit alone; the model is exact on such strings.
\<close>

definition lowerChar :: "jschar \<Rightarrow> jschar" where
  "lowerChar c = (if isUpper c then c + 0x20 else c)"

definition toLowerCase :: "jsstring \<Rightarrow> jsstring" where
  "toLowerCase s = map lowerChar s"

text \<open>
  \<^verbatim>\<open>.replace(/_{2,}/g, '_')\<close>: scanning from the left, a run of two or more underscores is
  matched greedily and replaced by one underscore; everything else is kept.
\<close>

fun firstIs :: "jschar \<Rightarrow> jsstring \<Rightarrow> bool" where
  "firstIs c [] = False"
| "firstIs c (x # xs) = (x = c)"

definition lastIs :: "jschar \<Rightarrow> jsstring \<Rightarrow> bool" where
  "lastIs c s = firstIs c (rev s)"

function collapseUnderscores :: "jsstring \<Rightarrow> jsstring" where
  "collapseUnderscores [] = []"
| "collapseUnderscores (c # cs) =
     (if c = underscore \<and> firstIs underscore cs
      then underscore # collapseUnderscores (dropWhile (\<lambda>x. x = underscore) cs)
      else c # collapseUnderscores cs)"
  by pat_completeness auto
termination
  by (relation "measure length") (auto simp: less_Suc_eq_le length_dropWhile_le)

text \<open>
  \<^verbatim>\<open>.replace(/^_|_$/g, '')\<close>: an underscore at the first position is removed, and an
  underscore at the last position of what remains is removed.
\<close>

definition stripEdgeUnderscores :: "jsstring \<Rightarrow> jsstring" where
  "stripEdgeUnderscores s =
     (let s1 = (if firstIs underscore s then tl s else s)
      in if lastIs underscore s1 then butlast s1 else s1)"

definition sanitizeFilename :: "jsstring \<Rightarrow> jsstring" where
  "sanitizeFilename filename =
     (let sanitized =
            stripEdgeUnderscores (collapseUnderscores (toLowerCase (replaceDisallowed filename)))
      in if sanitized = [] then js ''uploaded_file'' else sanitized)"

text \<open>The properties of a sanitized name, as executable predicates.\<close>

definition isNameChar :: "jschar \<Rightarrow> bool" where
  "isNameChar c \<longleftrightarrow> isLower c \<or> isDigit c \<or> c = 0x2E \<or> c = 0x2D"

fun adjacentUnderscores :: "jsstring \<Rightarrow> bool" where
  "adjacentUnderscores (a # b # cs) = ((a = underscore \<and> b = underscore) \<or> adjacentUnderscores (b # cs))"
| "adjacentUnderscores _ = False"

definition cleanName :: "jsstring \<Rightarrow> bool" where
  "cleanName r \<longleftrightarrow>
     list_all (\<lambda>c. isNameChar c \<or> c = underscore) r \<and> \<not> adjacentUnderscores r
     \<and> \<not> firstIs underscore r \<and> \<not> lastIs underscore r"

section \<open>The probe output parser\<close>

text \<open>
  A parsed section is a plain JavaScript object used as a string-to-string dictionary. It
  is modelled by the list of its own properties in the order of their creation;
  \<open>setProperty\<close> overwrites the value of an existing key in place and appends a new key.
  (JavaScript enumerates keys that are array indices before the others; no statement
  below depends on the position of such a key.)
\<close>

type_synonym js_object = "(jsstring \<times> jsstring) list"

fun setProperty :: "js_object \<Rightarrow> jsstring \<Rightarrow> jsstring \<Rightarrow> js_object" where
  "setProperty [] k v = [(k, v)]"
| "setProperty ((k', v') # rest) k v =
     (if k' = k then (k, v) # rest else (k', v') # setProperty rest k v)"

text \<open>
  \<^verbatim>\<open>obj[key] = value\<close> on an object literal, for a string \<open>value\<close>. The key
  \<^verbatim>\<open>__proto__\<close> is the inherited accessor of \<^verbatim>\<open>Object.prototype\<close>, whose setter ignores a
  value that is not an object: no own property is created. Every other key is stored.
\<close>

definition assignProperty :: "js_object \<Rightarrow> jsstring \<Rightarrow> jsstring \<Rightarrow> js_object" where
  "assignProperty obj k v = (if k = js ''__proto__'' then obj else setProperty obj k v)"

record probe_result =
  format :: js_object
  streams :: "js_object list"

text \<open>The local variables of \<^verbatim>\<open>parseFFprobeOutput\<close>.\<close>

record parser_state =
  result :: probe_result
  currentStream :: js_object
  inStream :: bool

datatype parse_failure = FailedToParse

definition initialParserState :: parser_state where
  "initialParserState =
     \<lparr>result = \<lparr>format = [], streams = []\<rparr>, currentStream = [], inStream = False\<rparr>"

text \<open>
  \<^verbatim>\<open>
  if (Object.keys(currentStream).length > 0) {
    result.streams.push(currentStream);
  }
  \<close>
  This statement occurs twice: at a stream marker and after the loop.
\<close>

definition pushCurrentStream :: "parser_state \<Rightarrow> probe_result" where
  "pushCurrentStream st =
     (if currentStream st \<noteq> []
      then (result st)\<lparr>streams := streams (result st) @ [currentStream st]\<rparr>
      else result st)"

text \<open>
  The body of the loop, for one line:
  \<^verbatim>\<open>
  if (line.startsWith('[FORMAT]')) {
    inStream = false;
  } else if (line.startsWith('[STREAM]')) {
    if (Object.keys(currentStream).length > 0) {
      result.streams.push(currentStream);
    }
    currentStream = {};
    inStream = true;
  } else if (line.includes('=')) {
    const [key, value] = line.split('=', 2);
    if (inStream) {
      currentStream[key.trim()] = value.trim();
    } else {
      result.format[key.trim()] = value.trim();
    }
  }
  \<close>
  The result is \<open>None\<close> where the body throws: destructuring fewer than two pieces leaves
  \<open>value\<close> undefined, and \<^verbatim>\<open>value.trim()\<close> is then a TypeError.
\<close>

definition parseLine :: "parser_state \<Rightarrow> jsstring \<Rightarrow> parser_state option" where
  "parseLine st line =
     (if startsWith line (js ''[FORMAT]'') then Some (st\<lparr>inStream := False\<rparr>)
      else if startsWith line (js ''[STREAM]'') then
        Some (st\<lparr>result := pushCurrentStream st, currentStream := [], inStream := True\<rparr>)
      else if includesChar line equalsSign then
        (case splitLimit equalsSign 2 line of
           key # val # _ \<Rightarrow>
             Some (if inStream st
                   then st\<lparr>currentStream := assignProperty (currentStream st) (trim key) (trim val)\<rparr>
                   else st\<lparr>result := (result st)
                          \<lparr>format := assignProperty (format (result st)) (trim key) (trim val)\<rparr>\<rparr>)
         | _ \<Rightarrow> None)
      else Some st)"

fun parseLines :: "parser_state \<Rightarrow> jsstring list \<Rightarrow> parser_state option" where
  "parseLines st [] = Some st"
| "parseLines st (line # rest) =
     (case parseLine st line of
        None \<Rightarrow> None
      | Some st' \<Rightarrow> parseLines st' rest)"

text \<open>
  \<^verbatim>\<open>parseFFprobeOutput(output)\<close>: the lines are \<^verbatim>\<open>output.split('\n')\<close>; an exception in
  the loop is caught and reported as \<^verbatim>\<open>{ error: 'Failed to parse ffprobe output' }\<close>.
\<close>

definition parseFFprobeOutput :: "jsstring \<Rightarrow> parse_failure + probe_result" where
  "parseFFprobeOutput text =
     (case parseLines initialParserState (split newline text) of
        None \<Rightarrow> Inl FailedToParse
      | Some st \<Rightarrow> Inr (pushCurrentStream st))"

text \<open>
  Two parser states that agree on the record in progress and on the active section, the
  second having emitted the records \<open>p\<close> before those of the first.
\<close>

definition sameProgress :: "js_object list \<Rightarrow> parser_state \<Rightarrow> parser_state \<Rightarrow> bool" where
  "sameProgress p s t \<longleftrightarrow>
     currentStream t = currentStream s \<and> inStream t = inStream s
     \<and> streams (result t) = p @ streams (result s)"

definition isMarker :: "jsstring \<Rightarrow> bool" where
  "isMarker l \<longleftrightarrow> startsWith l (js ''[FORMAT]'') \<or> startsWith l (js ''[STREAM]'')"

text \<open>What a line that is not a marker adds to a section: the \<^verbatim>\<open>key=value\<close> branch of the loop.\<close>

definition addEntry :: "js_object \<Rightarrow> jsstring \<Rightarrow> js_object" where
  "addEntry obj l =
     (if includesChar l equalsSign
      then (case splitLimit equalsSign 2 l of
              key # val # _ \<Rightarrow> assignProperty obj (trim key) (trim val)
            | _ \<Rightarrow> obj)
      else obj)"

section \<open>Process runners\<close>

text \<open>
  Every runner returns a promise of \<^verbatim>\<open>{ success, output, error? }\<close>. The promise is
  settled by callbacks that the runtime calls later: the completion of the process and a
  timer. A promise keeps the first value it is resolved with; a later \<^verbatim>\<open>resolve\<close> has no
  effect. One invocation is modelled by the state its callbacks share, and the runtime by
  the sequence of events it delivers to them.
\<close>

record CommandResult =
  success :: bool
  outputText :: jsstring
  error :: "jsstring option"

record invocation =
  timerMs :: int
  resolved :: "CommandResult option"
  killCalls :: nat

definition resolve :: "CommandResult \<Rightarrow> 'a invocation_scheme \<Rightarrow> 'a invocation_scheme" where
  "resolve r st = (if resolved st = None then st\<lparr>resolved := Some r\<rparr> else st)"

definition uploadDir :: jsstring where
  "uploadDir = js ''./uploads''"

text \<open>\<^verbatim>\<open>workingDir || this.uploadDir\<close>: an absent or empty working directory is falsy.\<close>

definition cwdOrUploadDir :: "jsstring option \<Rightarrow> jsstring" where
  "cwdOrUploadDir workingDir =
     (case workingDir of
        None \<Rightarrow> uploadDir
      | Some d \<Rightarrow> if d = [] then uploadDir else d)"

text \<open>
  The timer callback, the same in the three runners:
  \<^verbatim>\<open>
  setTimeout(() => {
    proc.kill();
    resolve({ success: false, output: '', error: 'Command timed out' });
  }, 600000);
  \<close>
\<close>

definition timedOut :: CommandResult where
  "timedOut = \<lparr>success = False, outputText = [], error = Some (js ''Command timed out'')\<rparr>"

definition onTimeout :: "'a invocation_scheme \<Rightarrow> 'a invocation_scheme" where
  "onTimeout st = resolve timedOut (st\<lparr>killCalls := Suc (killCalls st)\<rparr>)"

subsection \<open>The shell runner\<close>

text \<open>
  \<^verbatim>\<open>executeCommand(command, workingDir)\<close> hands the command line to \<^verbatim>\<open>exec\<close>, which
  buffers the output and calls back once, when the process has ended, with an error (or
  null), the standard output and the standard error.
  \<^verbatim>\<open>
  const proc = exec(command, { cwd }, (error, stdout, stderr) => {
    const output = stdout + stderr;
    if (error) {
      resolve({ success: false, output, error: error.message });
    } else {
      resolve({ success: true, output });
    }
  });
  \<close>
\<close>

datatype shell_event =
    ExecDone "jsstring option" jsstring jsstring
  | ShellTimeout

record shell_run = invocation +
  shellCommand :: jsstring
  shellCwd :: jsstring

fun shellStep :: "shell_run \<Rightarrow> shell_event \<Rightarrow> shell_run" where
  "shellStep st (ExecDone err out errOut) =
     (case err of
        Some message \<Rightarrow> resolve \<lparr>success = False, outputText = out @ errOut, error = Some message\<rparr> st
      | None \<Rightarrow> resolve \<lparr>success = True, outputText = out @ errOut, error = None\<rparr> st)"
| "shellStep st ShellTimeout = onTimeout st"

definition executeCommand :: "jsstring \<Rightarrow> jsstring option \<Rightarrow> shell_event list \<Rightarrow> shell_run" where
  "executeCommand command workingDir events =
     foldl shellStep
       \<lparr>timerMs = 600000, resolved = None, killCalls = 0,
        shellCommand = command, shellCwd = cwdOrUploadDir workingDir\<rparr>
       events"

subsection \<open>The argv runners\<close>

text \<open>
  \<^verbatim>\<open>executeFFmpegCommand(args, workingDir)\<close> and \<^verbatim>\<open>executeFFprobeCommand(args)\<close> spawn
  the executable with an argument vector and register the same four callbacks:
  \<^verbatim>\<open>
  proc.stdout?.on('data', (data) => { stdout += data.toString(); });
  proc.stderr?.on('data', (data) => { stderr += data.toString(); });
  proc.on('close', (code) => {
    const output = stdout + stderr;
    if (code === 0) {
      resolve({ success: true, output });
    } else {
      resolve({ success: false, output, error: `Process exited with code ${code}` });
    }
  });
  proc.on('error', (error) => {
    resolve({ success: false, output: '', error: error.message });
  });
  \<close>
  The exit code of \<^verbatim>\<open>close\<close> is a number, or null when a signal ended the process.
\<close>

datatype argv_event =
    StdoutData jsstring
  | StderrData jsstring
  | Close "int option"
  | ProcError jsstring
  | Timeout

record argv_run = invocation +
  executable :: jsstring
  argv :: "jsstring list"
  spawnCwd :: "jsstring option"
  stdoutText :: jsstring
  stderrText :: jsstring

text \<open>The decimal digits of a natural number, and an integer in a template literal.\<close>

function natDigits :: "nat \<Rightarrow> jsstring" where
  "natDigits n = (if n < 10 then [0x30 + of_nat n] else natDigits (n div 10) @ [0x30 + of_nat (n mod 10)])"
  by pat_completeness auto
termination
  by (relation "measure id") auto

declare natDigits.simps [simp del]

definition numberToString :: "int \<Rightarrow> jsstring" where
  "numberToString i = (if i < 0 then 0x2D # natDigits (nat (- i)) else natDigits (nat i))"

definition codeToString :: "int option \<Rightarrow> jsstring" where
  "codeToString code = (case code of None \<Rightarrow> js ''null'' | Some c \<Rightarrow> numberToString c)"

fun argvStep :: "argv_run \<Rightarrow> argv_event \<Rightarrow> argv_run" where
  "argvStep st (StdoutData d) = st\<lparr>stdoutText := stdoutText st @ d\<rparr>"
| "argvStep st (StderrData d) = st\<lparr>stderrText := stderrText st @ d\<rparr>"
| "argvStep st (Close code) =
     (if code = Some 0
      then resolve \<lparr>success = True, outputText = stdoutText st @ stderrText st, error = None\<rparr> st
      else resolve \<lparr>success = False, outputText = stdoutText st @ stderrText st,
                    error = Some (js ''Process exited with code '' @ codeToString code)\<rparr> st)"
| "argvStep st (ProcError message) =
     resolve \<lparr>success = False, outputText = [], error = Some message\<rparr> st"
| "argvStep st Timeout = onTimeout st"

definition executeFFmpegCommand :: "jsstring list \<Rightarrow> jsstring option \<Rightarrow> argv_event list \<Rightarrow> argv_run" where
  "executeFFmpegCommand args workingDir events =
     foldl argvStep
       \<lparr>timerMs = 600000, resolved = None, killCalls = 0,
        executable = js ''ffmpeg'', argv = args, spawnCwd = Some (cwdOrUploadDir workingDir),
        stdoutText = [], stderrText = []\<rparr>
       events"

definition executeFFprobeCommand :: "jsstring list \<Rightarrow> argv_event list \<Rightarrow> argv_run" where
  "executeFFprobeCommand args events =
     foldl argvStep
       \<lparr>timerMs = 600000, resolved = None, killCalls = 0,
        executable = js ''ffprobe'', argv = args, spawnCwd = None,
        stdoutText = [], stderrText = []\<rparr>
       events"

text \<open>What the two data callbacks have collected from a sequence of events.\<close>

fun isData :: "argv_event \<Rightarrow> bool" where
  "isData (StdoutData d) = True"
| "isData (StderrData d) = True"
| "isData _ = False"

fun stdoutOf :: "argv_event list \<Rightarrow> jsstring" where
  "stdoutOf [] = []"
| "stdoutOf (StdoutData d # es) = d @ stdoutOf es"
| "stdoutOf (_ # es) = stdoutOf es"

fun stderrOf :: "argv_event list \<Rightarrow> jsstring" where
  "stderrOf [] = []"
| "stderrOf (StderrData d # es) = d @ stderrOf es"
| "stderrOf (_ # es) = stderrOf es"

section \<open>The command tool\<close>

text \<open>
  \<^verbatim>\<open>
  execute: async ({ context }) => {
    const { command, inputFile, outputFile, workingDirectory } = context;
    try {
      if (!command.trim().startsWith('ffmpeg') && !command.trim().startsWith('ffprobe')) {
        return { success: false, message: 'Only ffmpeg and ffprobe commands are allowed',
                 error: 'Invalid command' };
      }
      const modifiedCommand = command.replace(/^ffmpeg\s/, 'ffmpeg -y ');
      const result = await FFmpegUtils.executeCommand(modifiedCommand, workingDirectory);
      return { success: result.success,
               message: result.success ? 'Command executed successfully' : 'Command failed',
               output: result.output, outputFile: outputFile, error: result.error };
    } catch (error) { ... }
  }
  \<close>
  The promise of \<open>executeCommand\<close> is only ever resolved, and nothing else in the
  \<^verbatim>\<open>try\<close> block throws, so the \<^verbatim>\<open>catch\<close> branch is not entered.
\<close>

record tool_context =
  command :: jsstring
  inputFile :: "jsstring option"
  outputFile :: "jsstring option"
  workingDirectory :: "jsstring option"

record tool_result =
  toolSuccess :: bool
  toolMessage :: jsstring
  toolOutput :: "jsstring option"
  toolOutputFile :: "jsstring option"
  toolError :: "jsstring option"

text \<open>
  What a call of the tool has done: the invocations of the shell runner it has made, each
  of which hands its command line to \<^verbatim>\<open>exec\<close>, and the value it has returned (\<open>None\<close>
  while it still awaits the runner).
\<close>

record tool_run =
  spawned :: "shell_run list"
  returned :: "tool_result option"

text \<open>
  \<^verbatim>\<open>command.replace(/^ffmpeg\s/, 'ffmpeg -y ')\<close>: the pattern matches at position 0 only,
  the six letters and one white-space code unit after them.
\<close>

definition injectOverwriteFlag :: "jsstring \<Rightarrow> jsstring" where
  "injectOverwriteFlag cmd =
     (if startsWith cmd (js ''ffmpeg'') \<and> 6 < length cmd \<and> isWhiteSpace (cmd ! 6)
      then js ''ffmpeg -y '' @ drop 7 cmd
      else cmd)"

definition invalidCommand :: tool_result where
  "invalidCommand =
     \<lparr>toolSuccess = False, toolMessage = js ''Only ffmpeg and ffprobe commands are allowed'',
      toolOutput = None, toolOutputFile = None, toolError = Some (js ''Invalid command'')\<rparr>"

definition executeFFmpegCommandTool :: "tool_context \<Rightarrow> shell_event list \<Rightarrow> tool_run" where
  "executeFFmpegCommandTool context events =
     (if \<not> startsWith (trim (command context)) (js ''ffmpeg'')
         \<and> \<not> startsWith (trim (command context)) (js ''ffprobe'')
      then \<lparr>spawned = [], returned = Some invalidCommand\<rparr>
      else
        let modifiedCommand = injectOverwriteFlag (command context);
            run = executeCommand modifiedCommand (workingDirectory context) events
        in \<lparr>spawned = [run],
            returned =
              (case resolved run of
                 None \<Rightarrow> None
               | Some r \<Rightarrow>
                   Some \<lparr>toolSuccess = success r,
                         toolMessage = (if success r then js ''Command executed successfully''
                                        else js ''Command failed''),
                         toolOutput = Some (outputText r),
                         toolOutputFile = outputFile context,
                         toolError = error r\<rparr>)\<rparr>)"

section \<open>The capture session\<close>

text \<open>
  The two static fields \<^verbatim>\<open>captureProcess\<close> and \<^verbatim>\<open>captureOutputFile\<close>, together with the
  effects on the operating system: the background processes started so far (a process
  handle is the position of its command in \<open>started\<close>) and the handles on which
  \<^verbatim>\<open>kill()\<close> has been called. \<^verbatim>\<open>exec(command)\<close> is taken to start a process and to
  return its handle for every command.
\<close>

record capture_state =
  captureProcess :: "nat option"
  captureOutputFile :: "jsstring option"
  started :: "jsstring list"
  killed :: "nat list"

definition initialCapture :: capture_state where
  "initialCapture =
     \<lparr>captureProcess = None, captureOutputFile = None, started = [], killed = []\<rparr>"

text \<open>
  \<^verbatim>\<open>
  static startCapture(command: string, outputFile: string): void {
    if (this.captureProcess) {
      this.captureProcess.kill();
    }
    this.captureOutputFile = outputFile;
    this.captureProcess = exec(command);
  }
  \<close>
\<close>

definition startCapture :: "jsstring \<Rightarrow> jsstring \<Rightarrow> capture_state \<Rightarrow> capture_state" where
  "startCapture cmd file st =
     (let st1 = (case captureProcess st of
                   Some h \<Rightarrow> st\<lparr>killed := killed st @ [h]\<rparr>
                 | None \<Rightarrow> st)
      in st1\<lparr>captureOutputFile := Some file,
             captureProcess := Some (length (started st1)),
             started := started st1 @ [cmd]\<rparr>)"

text \<open>
  \<^verbatim>\<open>
  static stopCapture(): { status: string; filename?: string } {
    if (this.captureProcess) {
      this.captureProcess.kill();
      this.captureProcess = null;
      const filename = this.captureOutputFile;
      this.captureOutputFile = null;
      return { status: 'stopped', filename: filename || undefined };
    }
    return { status: 'not_running' };
  }
  \<close>
\<close>

record stop_result =
  status :: jsstring
  stoppedFile :: "jsstring option"

definition stopCapture :: "capture_state \<Rightarrow> capture_state \<times> stop_result" where
  "stopCapture st =
     (case captureProcess st of
        Some h \<Rightarrow>
          (st\<lparr>killed := killed st @ [h], captureProcess := None, captureOutputFile := None\<rparr>,
           \<lparr>status = js ''stopped'',
            stoppedFile = (case captureOutputFile st of
                             None \<Rightarrow> None
                           | Some f \<Rightarrow> if f = [] then None else Some f)\<rparr>)
      | None \<Rightarrow> (st, \<lparr>status = js ''not_running'', stoppedFile = None\<rparr>))"

text \<open>A history of the session: any sequence of the two operations, from the initial state.\<close>

datatype capture_op = Start jsstring jsstring | Stop

fun applyOp :: "capture_state \<Rightarrow> capture_op \<Rightarrow> capture_state" where
  "applyOp st (Start cmd file) = startCapture cmd file st"
| "applyOp st Stop = fst (stopCapture st)"

definition runOps :: "capture_op list \<Rightarrow> capture_state" where
  "runOps ops = foldl applyOp initialCapture ops"

text \<open>The handles of the processes that were started and never killed.\<close>

definition ownedHandles :: "capture_state \<Rightarrow> nat list" where
  "ownedHandles st = filter (\<lambda>h. h \<notin> set (killed st)) [0..<length (started st)]"

text \<open>
  The invariant of the session: a killed handle is a handle that was given out, and the
  processes still owned are exactly the one in \<^verbatim>\<open>captureProcess\<close>, if any.
\<close>

definition captureInv :: "capture_state \<Rightarrow> bool" where
  "captureInv st \<longleftrightarrow>
     list_all (\<lambda>h. h < length (started st)) (killed st)
     \<and> ownedHandles st = (case captureProcess st of None \<Rightarrow> [] | Some h \<Rightarrow> [h])"

section \<open>Properties of the sanitizer\<close>

lemma underscore_class:
  "\<not> isNameChar underscore" "\<not> isAllowedChar underscore" "\<not> isUpper underscore"
  by (simp_all add: isNameChar_def isAllowedChar_def isLower_def isUpper_def isDigit_def underscore_def)

lemma lowerChar_allowed: "isAllowedChar c \<Longrightarrow> isNameChar (lowerChar c)"
  unfolding isAllowedChar_def isNameChar_def lowerChar_def isLower_def isUpper_def isDigit_def
  by (auto simp add: word_le_nat_alt unat_word_ariths)

lemma nameChar_not_upper: "isNameChar c \<Longrightarrow> \<not> isUpper c"
  unfolding isNameChar_def isLower_def isUpper_def isDigit_def
  by (auto simp add: word_le_nat_alt)

lemma nameChar_allowed: "isNameChar c \<Longrightarrow> isAllowedChar c"
  by (auto simp: isNameChar_def isAllowedChar_def)

lemma lowered_char:
  "isNameChar (lowerChar (if isAllowedChar c then c else underscore))
   \<or> lowerChar (if isAllowedChar c then c else underscore) = underscore"
  by (simp add: lowerChar_allowed) (simp add: lowerChar_def underscore_class)

lemma lowered_chars:
  "list_all (\<lambda>c. isNameChar c \<or> c = underscore) (toLowerCase (replaceDisallowed s))"
  using lowered_char by (simp add: toLowerCase_def replaceDisallowed_def list_all_iff)

lemma firstIs_collapse: "firstIs u (collapseUnderscores s) = firstIs u s"
  by (cases s) auto

lemma collapse_chars: "list_all P s \<Longrightarrow> list_all P (collapseUnderscores s)"
proof (induction s rule: collapseUnderscores.induct)
  case 1
  then show ?case by simp
next
  case (2 c cs)
  have "list_all P (dropWhile (\<lambda>x. x = underscore) cs)"
    using 2(3) by (auto simp: list_all_iff dest: set_dropWhileD)
  with 2 show ?case by auto
qed

lemma adjacent_Cons:
  "adjacentUnderscores (a # s) \<longleftrightarrow> (a = underscore \<and> firstIs underscore s) \<or> adjacentUnderscores s"
  by (cases s) auto

lemma firstIs_dropWhile: "\<not> firstIs u (dropWhile (\<lambda>x. x = u) cs)"
  by (induction cs) auto

lemma collapse_no_adjacent: "\<not> adjacentUnderscores (collapseUnderscores s)"
proof (induction s rule: collapseUnderscores.induct)
  case 1
  then show ?case by simp
next
  case (2 c cs)
  show ?case
  proof (cases "c = underscore \<and> firstIs underscore cs")
    case True
    with 2(1) show ?thesis
      by (simp add: adjacent_Cons firstIs_collapse firstIs_dropWhile del: adjacentUnderscores.simps)
  next
    case False
    with 2(2) show ?thesis
      by (auto simp add: adjacent_Cons firstIs_collapse simp del: adjacentUnderscores.simps)
  qed
qed

lemma collapse_id: "\<not> adjacentUnderscores s \<Longrightarrow> collapseUnderscores s = s"
  by (induction s) (auto simp: adjacent_Cons simp del: adjacentUnderscores.simps)

lemma adjacent_snoc:
  "adjacentUnderscores (s @ [a]) \<longleftrightarrow> adjacentUnderscores s \<or> (lastIs underscore s \<and> a = underscore)"
proof (induction s)
  case Nil
  then show ?case by (simp add: lastIs_def)
next
  case (Cons b s)
  have "firstIs underscore (s @ [a]) \<longleftrightarrow> (if s = [] then a = underscore else firstIs underscore s)"
    by (cases s) auto
  moreover have "lastIs underscore (b # s) \<longleftrightarrow> (if s = [] then b = underscore else lastIs underscore s)"
    by (cases "rev s") (auto simp: lastIs_def)
  ultimately show ?case
    using Cons.IH by (auto simp: adjacent_Cons lastIs_def simp del: adjacentUnderscores.simps)
qed

lemma adjacent_tl: "\<not> adjacentUnderscores s \<Longrightarrow> \<not> adjacentUnderscores (tl s)"
  by (cases s) (auto simp: adjacent_Cons simp del: adjacentUnderscores.simps)

lemma adjacent_butlast: "\<not> adjacentUnderscores s \<Longrightarrow> \<not> adjacentUnderscores (butlast s)"
  by (cases s rule: rev_cases) (auto simp: adjacent_snoc)

lemma firstIs_tl:
  "\<not> adjacentUnderscores s \<Longrightarrow> firstIs underscore s \<Longrightarrow> \<not> firstIs underscore (tl s)"
  by (cases s) (auto simp: adjacent_Cons simp del: adjacentUnderscores.simps)

lemma lastIs_butlast:
  "\<not> adjacentUnderscores s \<Longrightarrow> lastIs underscore s \<Longrightarrow> \<not> lastIs underscore (butlast s)"
  by (cases s rule: rev_cases) (auto simp: adjacent_snoc lastIs_def)

lemma firstIs_butlast: "\<not> firstIs u s \<Longrightarrow> \<not> firstIs u (butlast s)"
  by (cases s) (auto split: if_splits)

lemma strip_clean:
  assumes "\<not> adjacentUnderscores s"
  shows "\<not> adjacentUnderscores (stripEdgeUnderscores s)"
    and "\<not> firstIs underscore (stripEdgeUnderscores s)"
    and "\<not> lastIs underscore (stripEdgeUnderscores s)"
  using assms
  by (auto simp: stripEdgeUnderscores_def Let_def adjacent_tl adjacent_butlast firstIs_tl
      lastIs_butlast firstIs_butlast)

lemma set_strip: "set (stripEdgeUnderscores s) \<subseteq> set s"
proof -
  have tl: "set (tl s) \<subseteq> set s"
    by (cases s) auto
  have bl: "set (butlast t) \<subseteq> set t" for t :: jsstring
    by (auto dest: in_set_butlastD)
  show ?thesis
  proof (cases "firstIs underscore s")
    case True
    with tl bl[of "tl s"] show ?thesis
      by (auto simp: stripEdgeUnderscores_def Let_def split: if_splits)
  next
    case False
    with bl[of s] show ?thesis
      by (auto simp: stripEdgeUnderscores_def Let_def split: if_splits)
  qed
qed

lemma strip_chars: "list_all P s \<Longrightarrow> list_all P (stripEdgeUnderscores s)"
  using set_strip[of s] by (auto simp: list_all_iff)

lemma strip_id:
  "\<not> firstIs underscore s \<Longrightarrow> \<not> lastIs underscore s \<Longrightarrow> stripEdgeUnderscores s = s"
  by (simp add: stripEdgeUnderscores_def)

lemma cleanName_fallback: "cleanName (js ''uploaded_file'')"
  by (simp add: cleanName_def js_def isNameChar_def isLower_def isDigit_def underscore_def lastIs_def)

lemma cleanName_sanitize: "cleanName (sanitizeFilename x)"
proof -
  let ?s = "collapseUnderscores (toLowerCase (replaceDisallowed x))"
  have "cleanName (stripEdgeUnderscores ?s)"
    unfolding cleanName_def
    using strip_clean[OF collapse_no_adjacent, of "toLowerCase (replaceDisallowed x)"]
      strip_chars[OF collapse_chars[OF lowered_chars], of x]
    by simp
  then show ?thesis
    by (simp add: sanitizeFilename_def Let_def cleanName_fallback)
qed

lemma sanitize_nonempty: "sanitizeFilename x \<noteq> []"
  by (simp add: sanitizeFilename_def Let_def js_def)

lemma replaceDisallowed_id:
  "list_all (\<lambda>c. isNameChar c \<or> c = underscore) r \<Longrightarrow> replaceDisallowed r = r"
  by (induction r) (auto simp: replaceDisallowed_def nameChar_allowed)

lemma toLowerCase_id:
  "list_all (\<lambda>c. isNameChar c \<or> c = underscore) r \<Longrightarrow> toLowerCase r = r"
  by (induction r) (auto simp: toLowerCase_def lowerChar_def nameChar_not_upper underscore_class)

lemma sanitize_clean_id:
  assumes "cleanName r" "r \<noteq> []"
  shows "sanitizeFilename r = r"
  using assms
  by (simp add: sanitizeFilename_def cleanName_def replaceDisallowed_id toLowerCase_id
      collapse_id strip_id)

lemma replace_all_disallowed:
  "list_all (\<lambda>c. \<not> isAllowedChar c) x \<Longrightarrow>
   toLowerCase (replaceDisallowed x) = replicate (length x) underscore"
  by (induction x) (auto simp: toLowerCase_def replaceDisallowed_def lowerChar_def underscore_class)

lemma collapse_replicate:
  "collapseUnderscores (replicate n underscore) = (if n = 0 then [] else [underscore])"
proof (cases n)
  case 0
  then show ?thesis by simp
next
  case (Suc m)
  have "dropWhile (\<lambda>x. x = underscore) (replicate m underscore) = []"
    by simp
  then show ?thesis
    using Suc by (cases m) auto
qed

lemma sanitize_all_disallowed:
  "list_all (\<lambda>c. \<not> isAllowedChar c) x \<Longrightarrow> sanitizeFilename x = js ''uploaded_file''"
  by (simp add: sanitizeFilename_def replace_all_disallowed collapse_replicate
      stripEdgeUnderscores_def lastIs_def)

text \<open>
  Claim C6, as the specification states it: every character of a sanitized name is a
  letter, a digit, a dot or a hyphen. The sanitizer puts an underscore in the place of
  every other character, and an underscore between two kept characters stays: the name
  \<^verbatim>\<open>a b\<close> becomes \<^verbatim>\<open>a_b\<close>, whose second character is outside that set.
\<close>

theorem sanitized_charset_counterexample:
  "sanitizeFilename (js ''a b'') = js ''a_b'' \<and> \<not> list_all isAllowedChar (sanitizeFilename (js ''a b''))"
  by (simp add: sanitizeFilename_def replaceDisallowed_def toLowerCase_def lowerChar_def
      stripEdgeUnderscores_def lastIs_def js_def isAllowedChar_def isLower_def isUpper_def
      isDigit_def underscore_def)

text \<open>
  Claim C6, with the separator admitted: for every input string the sanitizer returns a
  non-empty string in which every character is a lower-case letter, a digit, a dot, a
  hyphen or the separator \<^verbatim>\<open>_\<close>, no two separators are adjacent, and neither the first nor
  the last character is a separator; when nothing is left after stripping, the result is
  the fixed name \<^verbatim>\<open>uploaded_file\<close>.
\<close>

theorem sanitized_name_shape:
  "sanitizeFilename x \<noteq> []
   \<and> list_all (\<lambda>c. isNameChar c \<or> c = underscore) (sanitizeFilename x)
   \<and> \<not> adjacentUnderscores (sanitizeFilename x)
   \<and> \<not> firstIs underscore (sanitizeFilename x)
   \<and> \<not> lastIs underscore (sanitizeFilename x)
   \<and> (stripEdgeUnderscores (collapseUnderscores (toLowerCase (replaceDisallowed x))) = []
        \<longrightarrow> sanitizeFilename x = js ''uploaded_file'')"
  using cleanName_sanitize[of x] sanitize_nonempty[of x]
  by (simp add: cleanName_def sanitizeFilename_def)

theorem sanitized_name_shape_witness:
  "sanitizeFilename (js ''  My File (1).MP4 '') = js ''my_file_1_.mp4''
   \<and> list_all (\<lambda>c. isNameChar c \<or> c = underscore) (js ''my_file_1_.mp4'')
   \<and> \<not> adjacentUnderscores (js ''my_file_1_.mp4'')
   \<and> stripEdgeUnderscores (collapseUnderscores (toLowerCase (replaceDisallowed (js ''?!'')))) = []
   \<and> sanitizeFilename (js ''?!'') = js ''uploaded_file''"
proof -
  have name: "sanitizeFilename (js ''  My File (1).MP4 '') = js ''my_file_1_.mp4''"
    by (simp add: sanitizeFilename_def replaceDisallowed_def toLowerCase_def lowerChar_def
        stripEdgeUnderscores_def lastIs_def js_def isAllowedChar_def isLower_def isUpper_def
        isDigit_def underscore_def)
  have empty: "stripEdgeUnderscores (collapseUnderscores (toLowerCase (replaceDisallowed (js ''?!'')))) = []"
    by (simp add: replaceDisallowed_def toLowerCase_def lowerChar_def
        stripEdgeUnderscores_def lastIs_def js_def isAllowedChar_def isLower_def isUpper_def
        isDigit_def underscore_def)
  show ?thesis
    using sanitized_name_shape[of "js ''  My File (1).MP4 ''"] sanitized_name_shape[of "js ''?!''"]
      name empty
    by simp
qed

text \<open>
  Claim C7: sanitization is idempotent, \<open>sanitize (sanitize x) = sanitize x\<close> for every
  string \<open>x\<close>, and a string made only of characters outside \<^verbatim>\<open>[a-zA-Z0-9.-]\<close> is
  sanitized to the fixed name \<^verbatim>\<open>uploaded_file\<close>.
\<close>

theorem sanitize_idempotent:
  "sanitizeFilename (sanitizeFilename x) = sanitizeFilename x
   \<and> (list_all (\<lambda>c. \<not> isAllowedChar c) x \<longrightarrow> sanitizeFilename x = js ''uploaded_file'')"
  using sanitize_clean_id[OF cleanName_sanitize sanitize_nonempty, of x]
  by (simp add: sanitize_all_disallowed)

theorem sanitize_idempotent_witness:
  "list_all (\<lambda>c. \<not> isAllowedChar c) (js ''@ #!'')
   \<and> sanitizeFilename (js ''@ #!'') = js ''uploaded_file''
   \<and> sanitizeFilename (sanitizeFilename (js ''@ #!'')) = sanitizeFilename (js ''@ #!'')"
proof -
  have "list_all (\<lambda>c. \<not> isAllowedChar c) (js ''@ #!'')"
    by (simp add: js_def isAllowedChar_def isLower_def isUpper_def isDigit_def)
  then show ?thesis
    using sanitize_idempotent[of "js ''@ #!''"] by blast
qed

section \<open>Properties of the probe output parser\<close>

lemma split_not_Nil: "split sep s \<noteq> []"
  by (induction s) (auto split: list.splits)

lemma split_two:
  "sep \<in> set s \<Longrightarrow> \<exists>k v rest. split sep s = k # v # rest"
proof (induction s)
  case Nil
  then show ?case by simp
next
  case (Cons c cs)
  show ?case
  proof (cases "c = sep")
    case True
    obtain p ps where "split sep cs = p # ps"
      using split_not_Nil[of sep cs] by (cases "split sep cs") auto
    with True show ?thesis by simp
  next
    case False
    with Cons.prems have "sep \<in> set cs" by simp
    then obtain k v rest where "split sep cs = k # v # rest"
      using Cons.IH by blast
    with False show ?thesis by simp
  qed
qed

lemma split_append: "split sep (a @ sep # b) = split sep a @ split sep b"
proof (induction a)
  case Nil
  then show ?case by simp
next
  case (Cons c cs)
  obtain p ps where "split sep cs = p # ps"
    using split_not_Nil[of sep cs] by (cases "split sep cs") auto
  with Cons show ?case by simp
qed

lemma parseLine_total: "\<exists>t. parseLine st line = Some t"
proof (cases "includesChar line equalsSign")
  case True
  then obtain k v rest where "split equalsSign line = k # v # rest"
    using split_two[of equalsSign line] by (auto simp: includesChar_def)
  then have "splitLimit equalsSign 2 line = [k, v]"
    by (simp add: splitLimit_def numeral_2_eq_2)
  then show ?thesis
    by (simp add: parseLine_def)
next
  case False
  then show ?thesis
    by (simp add: parseLine_def)
qed

lemma parseLines_total: "\<exists>t. parseLines st ls = Some t"
proof (induction ls arbitrary: st)
  case Nil
  then show ?case by simp
next
  case (Cons l ls)
  obtain t where "parseLine st l = Some t"
    using parseLine_total by blast
  with Cons show ?case by simp
qed

lemma parseLines_append:
  "parseLines st (xs @ ys) = (case parseLines st xs of None \<Rightarrow> None | Some t \<Rightarrow> parseLines t ys)"
  by (induction xs arbitrary: st) (auto split: option.splits)

lemma parseFFprobeOutput_total: "\<exists>r. parseFFprobeOutput text = Inr r"
  using parseLines_total[of initialParserState "split newline text"]
  by (auto simp: parseFFprobeOutput_def)

lemma sameProgress_parseLine:
  assumes "sameProgress p s t" "parseLine s l = Some s'" "parseLine t l = Some t'"
  shows "sameProgress p s' t'"
  using assms
  by (auto simp: parseLine_def sameProgress_def pushCurrentStream_def
      split: if_splits list.splits)

lemma sameProgress_parseLines:
  assumes "sameProgress p s t" "parseLines s ls = Some s'" "parseLines t ls = Some t'"
  shows "sameProgress p s' t'"
  using assms
proof (induction ls arbitrary: s t)
  case Nil
  then show ?case by simp
next
  case (Cons l ls)
  from Cons.prems obtain s1 t1 where
    s1: "parseLine s l = Some s1" "parseLines s1 ls = Some s'" and
    t1: "parseLine t l = Some t1" "parseLines t1 ls = Some t'"
    by (auto split: option.splits)
  from sameProgress_parseLine[OF Cons.prems(1) s1(1) t1(1)] Cons.IH s1(2) t1(2)
  show ?case by blast
qed

lemma sameProgress_push:
  "sameProgress p s t \<Longrightarrow> streams (pushCurrentStream t) = p @ streams (pushCurrentStream s)"
  by (auto simp: sameProgress_def pushCurrentStream_def)

lemma split_prefix:
  "sep \<notin> set p \<Longrightarrow> split sep (p @ s) = (p @ hd (split sep s)) # tl (split sep s)"
proof (induction p)
  case Nil
  then show ?case using split_not_Nil[of sep s] by simp
next
  case (Cons c cs)
  then show ?case by auto
qed

lemma first_line_prefix:
  assumes "startsWith b p" "newline \<notin> set p"
  obtains l rest where "split newline b = l # rest" "startsWith l p"
proof -
  from assms(1) have "b = p @ drop (length p) b"
    by (metis append_take_drop_id startsWith_def)
  then have "split newline b = (p @ hd (split newline (drop (length p) b))) # tl (split newline (drop (length p) b))"
    using split_prefix[OF assms(2)] by metis
  moreover have "startsWith (p @ x) p" for x
    by (simp add: startsWith_def)
  ultimately show ?thesis
    using that by blast
qed

lemma parseLine_stream_marker:
  "startsWith l (js ''[STREAM]'') \<Longrightarrow>
   parseLine st l = Some (st\<lparr>result := pushCurrentStream st, currentStream := [], inStream := True\<rparr>)"
  by (auto simp: parseLine_def startsWith_def js_def)

lemma parseLine_format_marker:
  "startsWith l (js ''[FORMAT]'') \<Longrightarrow> parseLine st l = Some (st\<lparr>inStream := False\<rparr>)"
  by (simp add: parseLine_def)

lemma streams_at_marker:
  assumes m: "startsWith b (js ''[STREAM]'')"
    and ra: "parseFFprobeOutput a = Inr ra"
    and rb: "parseFFprobeOutput b = Inr rb"
    and r: "parseFFprobeOutput (a @ newline # b) = Inr r"
  shows "streams r = streams ra @ streams rb"
proof -
  have "newline \<notin> set (js ''[STREAM]'')"
    by (simp add: js_def newline_def)
  with m obtain l rest where b: "split newline b = l # rest" and l: "startsWith l (js ''[STREAM]'')"
    by (rule first_line_prefix)
  obtain sa where sa: "parseLines initialParserState (split newline a) = Some sa"
    using parseLines_total by blast
  let ?i = "initialParserState\<lparr>result := pushCurrentStream initialParserState, currentStream := [], inStream := True\<rparr>"
  let ?s = "sa\<lparr>result := pushCurrentStream sa, currentStream := [], inStream := True\<rparr>"
  obtain sb where sb: "parseLines ?i rest = Some sb"
    using parseLines_total by blast
  obtain s where s: "parseLines ?s rest = Some s"
    using parseLines_total by blast
  have "sameProgress (streams (pushCurrentStream sa)) ?i ?s"
    by (simp add: sameProgress_def initialParserState_def pushCurrentStream_def)
  then have "sameProgress (streams (pushCurrentStream sa)) sb s"
    using sb s by (rule sameProgress_parseLines)
  then have "streams (pushCurrentStream s) = streams (pushCurrentStream sa) @ streams (pushCurrentStream sb)"
    by (rule sameProgress_push)
  moreover have "ra = pushCurrentStream sa"
    using ra sa by (simp add: parseFFprobeOutput_def)
  moreover have "rb = pushCurrentStream sb"
    using rb sb b l by (simp add: parseFFprobeOutput_def parseLine_stream_marker)
  moreover have "r = pushCurrentStream s"
    using r s sa b l
    by (simp add: parseFFprobeOutput_def split_append parseLines_append parseLine_stream_marker)
  ultimately show ?thesis by simp
qed

text \<open>Emitted records are never empty.\<close>

lemma parseLine_no_empty:
  "parseLine st l = Some t \<Longrightarrow> [] \<notin> set (streams (result st)) \<Longrightarrow> [] \<notin> set (streams (result t))"
  by (auto simp: parseLine_def pushCurrentStream_def split: if_splits list.splits)

lemma parseLines_no_empty:
  "parseLines st ls = Some t \<Longrightarrow> [] \<notin> set (streams (result st)) \<Longrightarrow> [] \<notin> set (streams (result t))"
proof (induction ls arbitrary: st)
  case Nil
  then show ?case by simp
next
  case (Cons l ls)
  then show ?case
    by (auto split: option.splits dest: parseLine_no_empty)
qed

lemma parse_no_empty_stream:
  "parseFFprobeOutput text = Inr r \<Longrightarrow> [] \<notin> set (streams r)"
  using parseLines_no_empty[of initialParserState "split newline text"]
  by (auto simp: parseFFprobeOutput_def initialParserState_def pushCurrentStream_def
      split: option.splits if_splits)

lemma parseLine_outside_stream:
  assumes "\<not> isMarker l" "\<not> inStream st"
  shows "parseLine st l = Some (st\<lparr>result := (result st)\<lparr>format := addEntry (format (result st)) l\<rparr>\<rparr>)"
proof (cases "includesChar l equalsSign")
  case True
  then obtain k v rest where "split equalsSign l = k # v # rest"
    using split_two[of equalsSign l] by (auto simp: includesChar_def)
  then have "splitLimit equalsSign 2 l = [k, v]"
    by (simp add: splitLimit_def numeral_2_eq_2)
  with True assms show ?thesis
    by (simp add: parseLine_def isMarker_def addEntry_def)
next
  case False
  with assms show ?thesis
    by (simp add: parseLine_def isMarker_def addEntry_def)
qed

lemma parseLines_outside_stream:
  assumes "list_all (\<lambda>l. \<not> isMarker l) ls" "\<not> inStream st"
  shows "parseLines st ls = Some (st\<lparr>result := (result st)\<lparr>format := foldl addEntry (format (result st)) ls\<rparr>\<rparr>)"
  using assms
proof (induction ls arbitrary: st)
  case Nil
  then show ?case by simp
next
  case (Cons l ls)
  then show ?case
    by (simp add: parseLine_outside_stream)
qed

lemma streams_grow:
  "parseLines st ls = Some t \<Longrightarrow> \<exists>more. streams (result t) = streams (result st) @ more"
proof (induction ls arbitrary: st)
  case Nil
  then show ?case by simp
next
  case (Cons l ls)
  from Cons.prems obtain s where s: "parseLine st l = Some s" "parseLines s ls = Some t"
    by (auto split: option.splits)
  from s(1) have "\<exists>more. streams (result s) = streams (result st) @ more"
    by (auto simp: parseLine_def pushCurrentStream_def split: if_splits list.splits)
  moreover from Cons.IH[OF s(2)] have "\<exists>more. streams (result t) = streams (result s) @ more" .
  ultimately show ?case by auto
qed

lemma streams_push_grow: "\<exists>more. streams (pushCurrentStream st) = streams (result st) @ more"
  by (simp add: pushCurrentStream_def)

text \<open>
  Claim C1 says that a line is cut at its first \<^verbatim>\<open>=\<close> only, so that the line
  \<^verbatim>\<open>a=b=c\<close> stores the value \<^verbatim>\<open>b=c\<close> under the key \<^verbatim>\<open>a\<close>. The parser calls
  \<^verbatim>\<open>line.split('=', 2)\<close>, which cuts the line at every \<^verbatim>\<open>=\<close> and keeps the first two
  pieces: the value stored for that line is \<^verbatim>\<open>b\<close>, and the rest of the line is lost.
\<close>

theorem value_cut_at_second_equals:
  "parseFFprobeOutput (js ''a=b=c'') = Inr \<lparr>format = [(js ''a'', js ''b'')], streams = []\<rparr>
   \<and> js ''b'' \<noteq> js ''b=c''"
  by (simp add: parseFFprobeOutput_def js_def newline_def parseLine_def initialParserState_def
      startsWith_def includesChar_def equalsSign_def splitLimit_def trim_def isWhiteSpace_def
      assignProperty_def pushCurrentStream_def)

text \<open>
  Claim C9: the parser keeps the stream records in the order of their \<^verbatim>\<open>[STREAM]\<close>
  sections and emits the record in progress at the end of the input. The text of the
  specification's scenario yields the format map \<^verbatim>\<open>{duration: "12.3"}\<close> and the two
  records \<^verbatim>\<open>{codec_name: "h264"}\<close>, \<^verbatim>\<open>{codec_name: "aac"}\<close> in that order. In general,
  when a text is cut before a line that starts with \<^verbatim>\<open>[STREAM]\<close>, the records of the whole
  text are the records of the first part, its last record included, followed by the
  records of the second part.
\<close>

theorem streams_in_input_order:
  "parseFFprobeOutput
     (js ''[FORMAT]\<newline>duration=12.3\<newline>[STREAM]\<newline>codec_name=h264\<newline>[STREAM]\<newline>codec_name=aac\<newline>'')
   = Inr \<lparr>format = [(js ''duration'', js ''12.3'')],
          streams = [[(js ''codec_name'', js ''h264'')], [(js ''codec_name'', js ''aac'')]]\<rparr>
   \<and> (startsWith b (js ''[STREAM]'') \<longrightarrow>
        (\<exists>ra rb r. parseFFprobeOutput a = Inr ra \<and> parseFFprobeOutput b = Inr rb
           \<and> parseFFprobeOutput (a @ newline # b) = Inr r
           \<and> streams r = streams ra @ streams rb))"
proof -
  have scenario: "parseFFprobeOutput
     (js ''[FORMAT]\<newline>duration=12.3\<newline>[STREAM]\<newline>codec_name=h264\<newline>[STREAM]\<newline>codec_name=aac\<newline>'')
   = Inr \<lparr>format = [(js ''duration'', js ''12.3'')],
          streams = [[(js ''codec_name'', js ''h264'')], [(js ''codec_name'', js ''aac'')]]\<rparr>"
    by (simp add: parseFFprobeOutput_def js_def newline_def parseLine_def initialParserState_def
        startsWith_def includesChar_def equalsSign_def splitLimit_def trim_def isWhiteSpace_def
        assignProperty_def pushCurrentStream_def)
  have general: "\<exists>ra rb r. parseFFprobeOutput a = Inr ra \<and> parseFFprobeOutput b = Inr rb
           \<and> parseFFprobeOutput (a @ newline # b) = Inr r
           \<and> streams r = streams ra @ streams rb" if "startsWith b (js ''[STREAM]'')"
  proof -
    obtain ra rb r where r: "parseFFprobeOutput a = Inr ra" "parseFFprobeOutput b = Inr rb"
      "parseFFprobeOutput (a @ newline # b) = Inr r"
      using parseFFprobeOutput_total by metis
    with that have "streams r = streams ra @ streams rb"
      by (rule streams_at_marker)
    with r show ?thesis by blast
  qed
  from scenario general show ?thesis by blast
qed

theorem streams_in_input_order_witness:
  "startsWith (js ''[STREAM]\<newline>codec_name=aac\<newline>'') (js ''[STREAM]'')
   \<and> parseFFprobeOutput (js ''[STREAM]\<newline>codec_name=h264'')
       = Inr \<lparr>format = [], streams = [[(js ''codec_name'', js ''h264'')]]\<rparr>
   \<and> parseFFprobeOutput (js ''[STREAM]\<newline>codec_name=aac\<newline>'')
       = Inr \<lparr>format = [], streams = [[(js ''codec_name'', js ''aac'')]]\<rparr>
   \<and> (\<exists>r. parseFFprobeOutput
              (js ''[STREAM]\<newline>codec_name=h264'' @ newline # js ''[STREAM]\<newline>codec_name=aac\<newline>'') = Inr r
          \<and> streams r = [[(js ''codec_name'', js ''h264'')], [(js ''codec_name'', js ''aac'')]])"
proof -
  have marker: "startsWith (js ''[STREAM]\<newline>codec_name=aac\<newline>'') (js ''[STREAM]'')"
    by (simp add: startsWith_def js_def)
  have a: "parseFFprobeOutput (js ''[STREAM]\<newline>codec_name=h264'')
       = Inr \<lparr>format = [], streams = [[(js ''codec_name'', js ''h264'')]]\<rparr>"
    by (simp add: parseFFprobeOutput_def js_def newline_def parseLine_def initialParserState_def
        startsWith_def includesChar_def equalsSign_def splitLimit_def trim_def isWhiteSpace_def
        assignProperty_def pushCurrentStream_def)
  have b: "parseFFprobeOutput (js ''[STREAM]\<newline>codec_name=aac\<newline>'')
       = Inr \<lparr>format = [], streams = [[(js ''codec_name'', js ''aac'')]]\<rparr>"
    by (simp add: parseFFprobeOutput_def js_def newline_def parseLine_def initialParserState_def
        startsWith_def includesChar_def equalsSign_def splitLimit_def trim_def isWhiteSpace_def
        assignProperty_def pushCurrentStream_def)
  from marker a b
    streams_in_input_order[of "js ''[STREAM]\<newline>codec_name=aac\<newline>''" "js ''[STREAM]\<newline>codec_name=h264''"]
  show ?thesis by auto
qed

text \<open>
  Claim C10: a line that starts with \<^verbatim>\<open>[FORMAT]\<close>, met while a stream record is in
  progress, sends the following \<^verbatim>\<open>key=value\<close> lines to the format map and neither emits nor
  drops the record. The record is emitted later, if it is not empty: at the end of the
  input (first part), or at the next line that starts with \<^verbatim>\<open>[STREAM]\<close> (second part). No
  parse ever emits an empty record (third part). Here \<open>st\<close> is the state of the parser
  after the lines \<open>before\<close>, \<open>fmt\<close> is the format marker and \<open>body\<close> the lines after it, none
  of them a marker.
\<close>

theorem format_marker_keeps_record:
  assumes "parseLines initialParserState before = Some st"
    and "startsWith fmt (js ''[FORMAT]'')"
    and "list_all (\<lambda>l. \<not> isMarker l) body"
    and "startsWith nxt (js ''[STREAM]'')"
  shows "(split newline text1 = before @ fmt # body \<longrightarrow>
            (\<exists>r. parseFFprobeOutput text1 = Inr r
               \<and> format r = foldl addEntry (format (result st)) body
               \<and> streams r = streams (result st)
                    @ (if currentStream st = [] then [] else [currentStream st])))
       \<and> (split newline text2 = before @ fmt # body @ nxt # rest \<longrightarrow>
            (\<exists>r more. parseFFprobeOutput text2 = Inr r
               \<and> streams r = streams (result st)
                    @ (if currentStream st = [] then [] else [currentStream st]) @ more))
       \<and> (\<forall>r. parseFFprobeOutput text3 = Inr r \<longrightarrow> [] \<notin> set (streams r))"
proof -
  let ?t = "st\<lparr>inStream := False\<rparr>"
  let ?u = "?t\<lparr>result := (result ?t)\<lparr>format := foldl addEntry (format (result ?t)) body\<rparr>\<rparr>"
  let ?emitted = "streams (result st) @ (if currentStream st = [] then [] else [currentStream st])"
  have body: "parseLines initialParserState (before @ fmt # body) = Some ?u"
    using assms(1,2) parseLines_outside_stream[OF assms(3), of ?t]
    by (simp add: parseLines_append parseLine_format_marker)
  have push: "streams (pushCurrentStream ?u) = ?emitted"
    by (simp add: pushCurrentStream_def)
  have first: "\<exists>r. parseFFprobeOutput text1 = Inr r
               \<and> format r = foldl addEntry (format (result st)) body
               \<and> streams r = ?emitted"
    if "split newline text1 = before @ fmt # body"
    using that body push by (simp add: parseFFprobeOutput_def pushCurrentStream_def)
  have second: "\<exists>r more. parseFFprobeOutput text2 = Inr r
               \<and> streams r = streams (result st)
                    @ (if currentStream st = [] then [] else [currentStream st]) @ more"
    if split: "split newline text2 = before @ fmt # body @ nxt # rest"
  proof -
    let ?v = "?u\<lparr>result := pushCurrentStream ?u, currentStream := [], inStream := True\<rparr>"
    obtain w where w: "parseLines ?v rest = Some w"
      using parseLines_total by blast
    have all: "parseLines initialParserState (split newline text2) = Some w"
    proof -
      have "parseLines initialParserState ((before @ fmt # body) @ nxt # rest) = Some w"
        unfolding parseLines_append[of initialParserState "before @ fmt # body"] body
        using w by (simp add: parseLine_stream_marker[OF assms(4)])
      then show ?thesis
        using split by simp
    qed
    obtain m1 where m1: "streams (result w) = streams (result ?v) @ m1"
      using streams_grow[OF w] by blast
    obtain m2 where m2: "streams (pushCurrentStream w) = streams (result w) @ m2"
      using streams_push_grow by blast
    have "streams (result ?v) = ?emitted"
      using push by simp
    with m1 m2 have "streams (pushCurrentStream w) = streams (result st)
                    @ (if currentStream st = [] then [] else [currentStream st]) @ (m1 @ m2)"
      by simp
    moreover have "parseFFprobeOutput text2 = Inr (pushCurrentStream w)"
      using all by (simp add: parseFFprobeOutput_def)
    ultimately show ?thesis by blast
  qed
  from first second parse_no_empty_stream show ?thesis
    by blast
qed

theorem format_marker_keeps_record_witness:
  "parseLines initialParserState [js ''[STREAM]'', js ''codec_name=h264'']
     = Some \<lparr>result = \<lparr>format = [], streams = []\<rparr>,
             currentStream = [(js ''codec_name'', js ''h264'')], inStream = True\<rparr>
   \<and> startsWith (js ''[FORMAT]'') (js ''[FORMAT]'')
   \<and> list_all (\<lambda>l. \<not> isMarker l) [js ''duration=12.3'']
   \<and> startsWith (js ''[STREAM]'') (js ''[STREAM]'')
   \<and> split newline (js ''[STREAM]\<newline>codec_name=h264\<newline>[FORMAT]\<newline>duration=12.3'')
       = [js ''[STREAM]'', js ''codec_name=h264''] @ js ''[FORMAT]'' # [js ''duration=12.3'']
   \<and> (\<exists>r. parseFFprobeOutput (js ''[STREAM]\<newline>codec_name=h264\<newline>[FORMAT]\<newline>duration=12.3'') = Inr r
          \<and> format r = [(js ''duration'', js ''12.3'')]
          \<and> streams r = [[(js ''codec_name'', js ''h264'')]])
   \<and> split newline
         (js ''[STREAM]\<newline>codec_name=h264\<newline>[FORMAT]\<newline>duration=12.3\<newline>[STREAM]\<newline>codec_name=aac'')
       = [js ''[STREAM]'', js ''codec_name=h264''] @ js ''[FORMAT]'' # [js ''duration=12.3'']
           @ js ''[STREAM]'' # [js ''codec_name=aac'']
   \<and> (\<exists>r more. parseFFprobeOutput
           (js ''[STREAM]\<newline>codec_name=h264\<newline>[FORMAT]\<newline>duration=12.3\<newline>[STREAM]\<newline>codec_name=aac'') = Inr r
          \<and> streams r = [(js ''codec_name'', js ''h264'')] # more
          \<and> [] \<notin> set (streams r))"
proof -
  let ?st = "\<lparr>result = \<lparr>format = [], streams = []\<rparr>,
             currentStream = [(js ''codec_name'', js ''h264'')], inStream = True\<rparr>"
  let ?text1 = "js ''[STREAM]\<newline>codec_name=h264\<newline>[FORMAT]\<newline>duration=12.3''"
  let ?text2 = "js ''[STREAM]\<newline>codec_name=h264\<newline>[FORMAT]\<newline>duration=12.3\<newline>[STREAM]\<newline>codec_name=aac''"
  have before: "parseLines initialParserState [js ''[STREAM]'', js ''codec_name=h264''] = Some ?st"
    by (simp add: js_def parseLine_def initialParserState_def
        startsWith_def includesChar_def equalsSign_def splitLimit_def trim_def isWhiteSpace_def
        assignProperty_def pushCurrentStream_def)
  have fmt: "startsWith (js ''[FORMAT]'') (js ''[FORMAT]'')"
    by (simp add: startsWith_def)
  have body: "list_all (\<lambda>l. \<not> isMarker l) [js ''duration=12.3'']"
    by (simp add: isMarker_def startsWith_def js_def)
  have nxt: "startsWith (js ''[STREAM]'') (js ''[STREAM]'')"
    by (simp add: startsWith_def)
  have split1: "split newline ?text1
       = [js ''[STREAM]'', js ''codec_name=h264''] @ js ''[FORMAT]'' # [js ''duration=12.3'']"
    by (simp add: js_def newline_def)
  have split2: "split newline ?text2
       = [js ''[STREAM]'', js ''codec_name=h264''] @ js ''[FORMAT]'' # [js ''duration=12.3'']
           @ js ''[STREAM]'' # [js ''codec_name=aac'']"
    by (simp add: js_def newline_def)
  have entry: "foldl addEntry [] [js ''duration=12.3''] = [(js ''duration'', js ''12.3'')]"
    by (simp add: addEntry_def js_def includesChar_def equalsSign_def splitLimit_def trim_def
        isWhiteSpace_def assignProperty_def)
  note inst = format_marker_keeps_record[OF before fmt body nxt, of ?text1 ?text2 "[js ''codec_name=aac'']" ?text2]
  from inst split1 entry have one: "\<exists>r. parseFFprobeOutput ?text1 = Inr r
          \<and> format r = [(js ''duration'', js ''12.3'')]
          \<and> streams r = [[(js ''codec_name'', js ''h264'')]]"
    by simp
  from inst split2 obtain r more where r: "parseFFprobeOutput ?text2 = Inr r"
      "streams r = [(js ''codec_name'', js ''h264'')] # more"
    by auto
  from inst r(1) have "[] \<notin> set (streams r)"
    by blast
  with r have two: "\<exists>r more. parseFFprobeOutput ?text2 = Inr r
          \<and> streams r = [(js ''codec_name'', js ''h264'')] # more
          \<and> [] \<notin> set (streams r)"
    by blast
  from before fmt body nxt split1 split2 one two show ?thesis
    by blast
qed

section \<open>Properties of the process runners\<close>

lemma resolved_resolve:
  "resolved (resolve r st) = (case resolved st of None \<Rightarrow> Some r | Some r' \<Rightarrow> Some r')"
  by (simp add: resolve_def split: option.splits)

lemma killCalls_resolve: "killCalls (resolve r st) = killCalls st"
  by (simp add: resolve_def)

lemma timerMs_resolve: "timerMs (resolve r st) = timerMs st"
  by (simp add: resolve_def)

lemma argvStep_settled: "resolved st = Some r \<Longrightarrow> resolved (argvStep st e) = Some r"
  by (cases e) (simp_all add: resolved_resolve onTimeout_def)

lemma argvStep_kills: "killCalls st \<le> killCalls (argvStep st e)"
  by (cases e) (simp_all add: killCalls_resolve onTimeout_def)

lemma argvStep_timer: "timerMs (argvStep st e) = timerMs st"
  by (cases e) (simp_all add: timerMs_resolve onTimeout_def)

lemma argv_settled: "resolved st = Some r \<Longrightarrow> resolved (foldl argvStep st es) = Some r"
  by (induction es arbitrary: st) (simp_all add: argvStep_settled)

lemma argv_kills: "killCalls st \<le> killCalls (foldl argvStep st es)"
proof (induction es arbitrary: st)
  case Nil
  then show ?case by simp
next
  case (Cons e es)
  have "killCalls st \<le> killCalls (argvStep st e)"
    by (rule argvStep_kills)
  also have "\<dots> \<le> killCalls (foldl argvStep (argvStep st e) es)"
    by (rule Cons.IH)
  finally show ?case by simp
qed

lemma argv_timer: "timerMs (foldl argvStep st es) = timerMs st"
  by (induction es arbitrary: st) (simp_all add: argvStep_timer)

lemma argv_data:
  "list_all isData pre \<Longrightarrow>
   foldl argvStep st pre =
     st\<lparr>stdoutText := stdoutText st @ stdoutOf pre, stderrText := stderrText st @ stderrOf pre\<rparr>"
proof (induction pre arbitrary: st)
  case Nil
  then show ?case by simp
next
  case (Cons e es)
  then show ?case by (cases e) simp_all
qed

lemma shellStep_settled: "resolved st = Some r \<Longrightarrow> resolved (shellStep st e) = Some r"
  by (cases e) (simp_all add: resolved_resolve onTimeout_def split: option.splits)

lemma shellStep_kills: "killCalls st \<le> killCalls (shellStep st e)"
  by (cases e) (simp_all add: killCalls_resolve onTimeout_def split: option.splits)

lemma shellStep_timer: "timerMs (shellStep st e) = timerMs st"
  by (cases e) (simp_all add: timerMs_resolve onTimeout_def split: option.splits)

lemma shell_settled: "resolved st = Some r \<Longrightarrow> resolved (foldl shellStep st es) = Some r"
  by (induction es arbitrary: st) (simp_all add: shellStep_settled)

lemma shell_kills: "killCalls st \<le> killCalls (foldl shellStep st es)"
proof (induction es arbitrary: st)
  case Nil
  then show ?case by simp
next
  case (Cons e es)
  have "killCalls st \<le> killCalls (shellStep st e)"
    by (rule shellStep_kills)
  also have "\<dots> \<le> killCalls (foldl shellStep (shellStep st e) es)"
    by (rule Cons.IH)
  finally show ?case by simp
qed

lemma shell_timer: "timerMs (foldl shellStep st es) = timerMs st"
  by (induction es arbitrary: st) (simp_all add: shellStep_timer)

text \<open>The timer firing on a pending promise.\<close>

lemma argv_timeout_pending:
  assumes "list_all isData pre" "resolved st = None"
  shows "resolved (foldl argvStep st (pre @ Timeout # post)) = Some timedOut"
    and "killCalls st < killCalls (foldl argvStep st (pre @ Timeout # post))"
proof -
  let ?d = "st\<lparr>stdoutText := stdoutText st @ stdoutOf pre, stderrText := stderrText st @ stderrOf pre\<rparr>"
  have fold: "foldl argvStep st (pre @ Timeout # post) = foldl argvStep (onTimeout ?d) post"
    using assms(1) by (simp add: argv_data)
  have "resolved (onTimeout ?d) = Some timedOut"
    using assms(2) by (simp add: onTimeout_def resolved_resolve)
  then show "resolved (foldl argvStep st (pre @ Timeout # post)) = Some timedOut"
    unfolding fold by (rule argv_settled)
  have "killCalls (onTimeout ?d) = Suc (killCalls st)"
    by (simp add: onTimeout_def killCalls_resolve)
  then show "killCalls st < killCalls (foldl argvStep st (pre @ Timeout # post))"
    unfolding fold using argv_kills[of "onTimeout ?d" post] by simp
qed

lemma shell_timeout_pending:
  assumes "resolved st = None"
  shows "resolved (foldl shellStep st (ShellTimeout # post)) = Some timedOut"
    and "killCalls st < killCalls (foldl shellStep st (ShellTimeout # post))"
proof -
  have "resolved (onTimeout st) = Some timedOut"
    using assms by (simp add: onTimeout_def resolved_resolve)
  then show "resolved (foldl shellStep st (ShellTimeout # post)) = Some timedOut"
    by (simp add: shell_settled)
  have "killCalls (onTimeout st) = Suc (killCalls st)"
    by (simp add: onTimeout_def killCalls_resolve)
  then show "killCalls st < killCalls (foldl shellStep st (ShellTimeout # post))"
    using shell_kills[of "onTimeout st" post] by simp
qed

lemma executeCommand_timeout:
  "resolved (executeCommand cmd wd (ShellTimeout # later)) = Some timedOut"
  "0 < killCalls (executeCommand cmd wd (ShellTimeout # later))"
  "timerMs (executeCommand cmd wd events) = 600000"
proof -
  let ?st = "\<lparr>timerMs = 600000, resolved = None, killCalls = 0,
        shellCommand = cmd, shellCwd = cwdOrUploadDir wd\<rparr>"
  show "resolved (executeCommand cmd wd (ShellTimeout # later)) = Some timedOut"
    unfolding executeCommand_def by (rule shell_timeout_pending) simp
  have "killCalls ?st < killCalls (foldl shellStep ?st (ShellTimeout # later))"
    by (rule shell_timeout_pending) simp
  then show "0 < killCalls (executeCommand cmd wd (ShellTimeout # later))"
    unfolding executeCommand_def by simp
  show "timerMs (executeCommand cmd wd events) = 600000"
    unfolding executeCommand_def by (simp add: shell_timer)
qed

lemma executeFFmpegCommand_timeout:
  assumes "list_all isData pre"
  shows "resolved (executeFFmpegCommand args wd (pre @ Timeout # post)) = Some timedOut"
    and "0 < killCalls (executeFFmpegCommand args wd (pre @ Timeout # post))"
    and "timerMs (executeFFmpegCommand args wd events) = 600000"
proof -
  let ?st = "\<lparr>timerMs = 600000, resolved = None, killCalls = 0,
        executable = js ''ffmpeg'', argv = args, spawnCwd = Some (cwdOrUploadDir wd),
        stdoutText = [], stderrText = []\<rparr>"
  show "resolved (executeFFmpegCommand args wd (pre @ Timeout # post)) = Some timedOut"
    unfolding executeFFmpegCommand_def by (rule argv_timeout_pending[OF assms]) simp
  have "killCalls ?st < killCalls (foldl argvStep ?st (pre @ Timeout # post))"
    by (rule argv_timeout_pending[OF assms]) simp
  then show "0 < killCalls (executeFFmpegCommand args wd (pre @ Timeout # post))"
    unfolding executeFFmpegCommand_def by simp
  show "timerMs (executeFFmpegCommand args wd events) = 600000"
    unfolding executeFFmpegCommand_def by (simp add: argv_timer)
qed

lemma executeFFprobeCommand_timeout:
  assumes "list_all isData pre"
  shows "resolved (executeFFprobeCommand args (pre @ Timeout # post)) = Some timedOut"
    and "0 < killCalls (executeFFprobeCommand args (pre @ Timeout # post))"
    and "timerMs (executeFFprobeCommand args events) = 600000"
proof -
  let ?st = "\<lparr>timerMs = 600000, resolved = None, killCalls = 0,
        executable = js ''ffprobe'', argv = args, spawnCwd = None,
        stdoutText = [], stderrText = []\<rparr>"
  show "resolved (executeFFprobeCommand args (pre @ Timeout # post)) = Some timedOut"
    unfolding executeFFprobeCommand_def by (rule argv_timeout_pending[OF assms]) simp
  have "killCalls ?st < killCalls (foldl argvStep ?st (pre @ Timeout # post))"
    by (rule argv_timeout_pending[OF assms]) simp
  then show "0 < killCalls (executeFFprobeCommand args (pre @ Timeout # post))"
    unfolding executeFFprobeCommand_def by simp
  show "timerMs (executeFFprobeCommand args events) = 600000"
    unfolding executeFFprobeCommand_def by (simp add: argv_timer)
qed

text \<open>
  Claim C3: in each of the three runners, when the timer of 600 seconds fires while the
  process has not ended (the runtime has delivered nothing but output data before, so the
  promise is still pending), \<^verbatim>\<open>kill()\<close> is called on the process and the call resolves with
  \<^verbatim>\<open>success = false\<close>, \<^verbatim>\<open>output = ""\<close> and \<^verbatim>\<open>error = "Command timed out"\<close>: the output
  collected so far is dropped, and no later event changes the result.
\<close>

theorem timeout_branch:
  assumes "list_all isData pre"
  shows "(let r = executeCommand cmd wd (ShellTimeout # later) in
            timerMs r = 600000 \<and> 0 < killCalls r \<and>
            resolved r = Some \<lparr>success = False, outputText = [], error = Some (js ''Command timed out'')\<rparr>)
       \<and> (let r = executeFFmpegCommand args wd (pre @ Timeout # post) in
            timerMs r = 600000 \<and> 0 < killCalls r \<and>
            resolved r = Some \<lparr>success = False, outputText = [], error = Some (js ''Command timed out'')\<rparr>)
       \<and> (let r = executeFFprobeCommand args (pre @ Timeout # post) in
            timerMs r = 600000 \<and> 0 < killCalls r \<and>
            resolved r = Some \<lparr>success = False, outputText = [], error = Some (js ''Command timed out'')\<rparr>)"
  by (simp add: Let_def executeCommand_timeout executeFFmpegCommand_timeout[OF assms]
      executeFFprobeCommand_timeout[OF assms] timedOut_def)

theorem timeout_branch_witness:
  "list_all isData [StdoutData (js ''frame=1''), StderrData (js ''warn'')]
   \<and> resolved (executeCommand (js ''ffmpeg -y -i a.mp4 b.mp4'') None
         (ShellTimeout # [ExecDone None (js ''late'') []]))
       = Some \<lparr>success = False, outputText = [], error = Some (js ''Command timed out'')\<rparr>
   \<and> 0 < killCalls (executeCommand (js ''ffmpeg -y -i a.mp4 b.mp4'') None
         (ShellTimeout # [ExecDone None (js ''late'') []]))
   \<and> resolved (executeFFmpegCommand [js ''-i'', js ''a.mp4'', js ''b.mp4''] None
         ([StdoutData (js ''frame=1''), StderrData (js ''warn'')] @ Timeout # [Close (Some 255)]))
       = Some \<lparr>success = False, outputText = [], error = Some (js ''Command timed out'')\<rparr>
   \<and> 0 < killCalls (executeFFmpegCommand [js ''-i'', js ''a.mp4'', js ''b.mp4''] None
         ([StdoutData (js ''frame=1''), StderrData (js ''warn'')] @ Timeout # [Close (Some 255)]))
   \<and> resolved (executeFFprobeCommand [js ''a.mp4'']
         ([StdoutData (js ''frame=1''), StderrData (js ''warn'')] @ Timeout # [Close (Some 255)]))
       = Some \<lparr>success = False, outputText = [], error = Some (js ''Command timed out'')\<rparr>"
proof -
  have data: "list_all isData [StdoutData (js ''frame=1''), StderrData (js ''warn'')]"
    by simp
  from data
    timeout_branch[OF data, of "js ''ffmpeg -y -i a.mp4 b.mp4''" None "[ExecDone None (js ''late'') []]"
      "[js ''-i'', js ''a.mp4'', js ''b.mp4'']" "[Close (Some 255)]"]
    timeout_branch[OF data, of "js ''ffmpeg -y -i a.mp4 b.mp4''" None "[ExecDone None (js ''late'') []]"
      "[js ''a.mp4'']" "[Close (Some 255)]"]
  show ?thesis
    by (simp only: Let_def)
qed

lemma argv_close_pending:
  assumes "list_all isData pre" "resolved st = None" "stdoutText st = []" "stderrText st = []"
  shows "resolved (foldl argvStep st (pre @ Close (Some c) # post)) =
    Some (if c = 0
          then \<lparr>success = True, outputText = stdoutOf pre @ stderrOf pre, error = None\<rparr>
          else \<lparr>success = False, outputText = stdoutOf pre @ stderrOf pre,
                error = Some (js ''Process exited with code '' @ numberToString c)\<rparr>)"
proof -
  let ?d = "st\<lparr>stdoutText := stdoutText st @ stdoutOf pre, stderrText := stderrText st @ stderrOf pre\<rparr>"
  let ?r = "if c = 0
          then \<lparr>success = True, outputText = stdoutOf pre @ stderrOf pre, error = None\<rparr>
          else \<lparr>success = False, outputText = stdoutOf pre @ stderrOf pre,
                error = Some (js ''Process exited with code '' @ numberToString c)\<rparr>"
  have fold: "foldl argvStep st (pre @ Close (Some c) # post) = foldl argvStep (argvStep ?d (Close (Some c))) post"
    using assms(1) by (simp add: argv_data)
  have "resolved (argvStep ?d (Close (Some c))) = Some ?r"
    using assms(2-4) by (simp add: resolved_resolve codeToString_def)
  then show ?thesis
    unfolding fold by (rule argv_settled)
qed

text \<open>
  Claim C4: when the process of an argv runner closes with the exit code \<open>c\<close>, the call not
  having been resolved before (only output data was delivered before the close event),
  the result for \<open>c = 0\<close> is \<^verbatim>\<open>success = true\<close> with the collected standard output
  followed by the collected standard error and no error, and for any other \<open>c\<close> it is
  \<^verbatim>\<open>success = false\<close> with the same output and the error \<^verbatim>\<open>Process exited with code c\<close>.
\<close>

theorem close_result:
  assumes "list_all isData pre"
  shows "resolved (executeFFmpegCommand args wd (pre @ Close (Some c) # post)) =
          Some (if c = 0
                then \<lparr>success = True, outputText = stdoutOf pre @ stderrOf pre, error = None\<rparr>
                else \<lparr>success = False, outputText = stdoutOf pre @ stderrOf pre,
                      error = Some (js ''Process exited with code '' @ numberToString c)\<rparr>)
       \<and> resolved (executeFFprobeCommand args (pre @ Close (Some c) # post)) =
          Some (if c = 0
                then \<lparr>success = True, outputText = stdoutOf pre @ stderrOf pre, error = None\<rparr>
                else \<lparr>success = False, outputText = stdoutOf pre @ stderrOf pre,
                      error = Some (js ''Process exited with code '' @ numberToString c)\<rparr>)"
  unfolding executeFFmpegCommand_def executeFFprobeCommand_def
  using assms by (simp add: argv_close_pending del: foldl_append foldl_Cons)

theorem close_result_witness:
  "list_all isData [StdoutData (js ''frame=1''), StderrData (js ''warn''), StdoutData (js '' done'')]
   \<and> resolved (executeFFmpegCommand
         [js ''-i'', js ''in.mp4'', js ''-ss'', js ''00:00:01'', js ''-to'', js ''00:00:05'',
          js ''-c'', js ''copy'', js ''trimmed_in.mp4'']
         None
         ([StdoutData (js ''frame=1''), StderrData (js ''warn''), StdoutData (js '' done'')]
            @ Close (Some 0) # [Timeout]))
       = Some \<lparr>success = True, outputText = js ''frame=1 donewarn'', error = None\<rparr>
   \<and> resolved (executeFFprobeCommand [js ''missing.mp4'']
         ([StdoutData (js ''frame=1''), StderrData (js ''warn''), StdoutData (js '' done'')]
            @ Close (Some 1) # [Timeout]))
       = Some \<lparr>success = False, outputText = js ''frame=1 donewarn'',
               error = Some (js ''Process exited with code 1'')\<rparr>"
proof -
  let ?pre = "[StdoutData (js ''frame=1''), StderrData (js ''warn''), StdoutData (js '' done'')]"
  have data: "list_all isData ?pre"
    by simp
  have one: "numberToString 1 = js ''1''"
    by code_simp
  from data one
    close_result[OF data, of "[js ''-i'', js ''in.mp4'', js ''-ss'', js ''00:00:01'', js ''-to'',
       js ''00:00:05'', js ''-c'', js ''copy'', js ''trimmed_in.mp4'']" None 0 "[Timeout]"]
    close_result[OF data, of "[js ''missing.mp4'']" None 1 "[Timeout]"]
  show ?thesis
    by (simp add: js_def)
qed

section \<open>Properties of the command tool\<close>

text \<open>
  Claim C2: a command string that, once trimmed, begins neither with \<^verbatim>\<open>ffmpeg\<close> nor with
  \<^verbatim>\<open>ffprobe\<close> is answered with the validation failure (\<^verbatim>\<open>success = false\<close>, the message
  \<^verbatim>\<open>Only ffmpeg and ffprobe commands are allowed\<close>, the error \<^verbatim>\<open>Invalid command\<close>), and the
  tool starts no process, whatever the runtime does.
\<close>

theorem rejected_command:
  assumes "\<not> startsWith (trim (command context)) (js ''ffmpeg'')"
    and "\<not> startsWith (trim (command context)) (js ''ffprobe'')"
  shows "spawned (executeFFmpegCommandTool context events) = []
       \<and> returned (executeFFmpegCommandTool context events) =
           Some \<lparr>toolSuccess = False,
                 toolMessage = js ''Only ffmpeg and ffprobe commands are allowed'',
                 toolOutput = None, toolOutputFile = None,
                 toolError = Some (js ''Invalid command'')\<rparr>"
  using assms by (simp add: executeFFmpegCommandTool_def invalidCommand_def)

theorem rejected_command_witness:
  "\<not> startsWith (trim (command \<lparr>command = js '' rm -rf uploads '', inputFile = None,
          outputFile = None, workingDirectory = None\<rparr>)) (js ''ffmpeg'')
   \<and> \<not> startsWith (trim (command \<lparr>command = js '' rm -rf uploads '', inputFile = None,
          outputFile = None, workingDirectory = None\<rparr>)) (js ''ffprobe'')
   \<and> spawned (executeFFmpegCommandTool
         \<lparr>command = js '' rm -rf uploads '', inputFile = None, outputFile = None,
          workingDirectory = None\<rparr> [ExecDone None [] [], ShellTimeout]) = []
   \<and> returned (executeFFmpegCommandTool
         \<lparr>command = js '' rm -rf uploads '', inputFile = None, outputFile = None,
          workingDirectory = None\<rparr> [ExecDone None [] [], ShellTimeout])
       = Some \<lparr>toolSuccess = False,
               toolMessage = js ''Only ffmpeg and ffprobe commands are allowed'',
               toolOutput = None, toolOutputFile = None,
               toolError = Some (js ''Invalid command'')\<rparr>"
proof -
  let ?ctx = "\<lparr>command = js '' rm -rf uploads '', inputFile = None, outputFile = None,
          workingDirectory = None\<rparr>"
  have ffmpeg: "\<not> startsWith (trim (command ?ctx)) (js ''ffmpeg'')"
    by (simp add: startsWith_def trim_def js_def isWhiteSpace_def)
  have ffprobe: "\<not> startsWith (trim (command ?ctx)) (js ''ffprobe'')"
    by (simp add: startsWith_def trim_def js_def isWhiteSpace_def)
  from ffmpeg ffprobe rejected_command[OF ffmpeg ffprobe, of "[ExecDone None [] [], ShellTimeout]"]
  show ?thesis
    by blast
qed

lemma shellCommand_fold: "shellCommand (foldl shellStep st es) = shellCommand st"
proof (induction es arbitrary: st)
  case Nil
  then show ?case by simp
next
  case (Cons e es)
  have "shellCommand (shellStep st e) = shellCommand st"
    by (cases e) (simp_all add: resolve_def onTimeout_def split: option.splits)
  with Cons show ?case by simp
qed

lemma shellCommand_executeCommand: "shellCommand (executeCommand cmd wd events) = cmd"
  by (simp add: executeCommand_def shellCommand_fold)

lemma trim_prefix:
  assumes "list_all (\<lambda>c. \<not> isWhiteSpace c) p"
  shows "\<exists>t. trim (p @ s) = p @ t"
proof (cases p)
  case Nil
  then show ?thesis by simp
next
  case (Cons c cs)
  with assms have left: "dropWhile isWhiteSpace (p @ s) = p @ s"
    by simp
  have "p \<noteq> []"
    using Cons by simp
  then have "last p \<in> set p"
    by (rule last_in_set)
  with assms have "\<not> isWhiteSpace (last p)"
    by (simp add: list_all_iff)
  then have "dropWhile isWhiteSpace (rev p) = rev p"
    by (simp add: dropWhile_eq_self_iff hd_rev)
  then have "\<exists>u. dropWhile isWhiteSpace (rev s @ rev p) = u @ rev p"
    by (auto simp: dropWhile_append)
  then obtain u where "dropWhile isWhiteSpace (rev s @ rev p) = u @ rev p"
    by blast
  with left have "trim (p @ s) = p @ rev u"
    by (simp add: trim_def)
  then show ?thesis by blast
qed

lemma startsWith_append: "startsWith (p @ t) p"
  by (simp add: startsWith_def)

lemma accepted_ffmpeg: "startsWith (trim (js ''ffmpeg'' @ rest)) (js ''ffmpeg'')"
proof -
  have "list_all (\<lambda>c. \<not> isWhiteSpace c) (js ''ffmpeg'')"
    by (simp add: js_def isWhiteSpace_def)
  then obtain t where "trim (js ''ffmpeg'' @ rest) = js ''ffmpeg'' @ t"
    using trim_prefix by blast
  then show ?thesis
    by (simp add: startsWith_append)
qed

lemma spawned_accepted:
  assumes "startsWith (trim (command context)) (js ''ffmpeg'')"
  shows "map shellCommand (spawned (executeFFmpegCommandTool context events)) =
         [injectOverwriteFlag (command context)]"
  using assms by (simp add: executeFFmpegCommandTool_def Let_def shellCommand_executeCommand)

lemma inject_whitespace:
  "isWhiteSpace w \<Longrightarrow> injectOverwriteFlag (js ''ffmpeg'' @ w # rest) = js ''ffmpeg -y '' @ rest"
  by (simp add: injectOverwriteFlag_def startsWith_def js_def)

lemma inject_other:
  "(case rest of [] \<Rightarrow> True | c # _ \<Rightarrow> \<not> isWhiteSpace c) \<Longrightarrow>
   injectOverwriteFlag (js ''ffmpeg'' @ rest) = js ''ffmpeg'' @ rest"
  by (cases rest) (simp_all add: injectOverwriteFlag_def startsWith_def js_def)

text \<open>
  Claim C5, restricted to the commands the replacement matches: for a command that
  begins with \<^verbatim>\<open>ffmpeg\<close> and a white-space character, the command handed to the shell is
  \<^verbatim>\<open>ffmpeg -y\<close>, a space and the rest of the command after that character, so the flag
  stands right after the executable name. A command that is \<^verbatim>\<open>ffmpeg\<close> alone, or that
  continues with another character, is handed to the shell unchanged.
\<close>

theorem overwrite_flag:
  "(isWhiteSpace w \<longrightarrow>
      map shellCommand (spawned (executeFFmpegCommandTool
        (ctx\<lparr>command := js ''ffmpeg'' @ w # rest\<rparr>) events)) = [js ''ffmpeg -y '' @ rest])
   \<and> ((case other of [] \<Rightarrow> True | c # _ \<Rightarrow> \<not> isWhiteSpace c) \<longrightarrow>
      map shellCommand (spawned (executeFFmpegCommandTool
        (ctx\<lparr>command := js ''ffmpeg'' @ other\<rparr>) events)) = [js ''ffmpeg'' @ other])"
  using accepted_ffmpeg[of "w # rest"] accepted_ffmpeg[of other]
  by (simp add: spawned_accepted inject_whitespace inject_other)

theorem overwrite_flag_witness:
  "isWhiteSpace 0x20
   \<and> map shellCommand (spawned (executeFFmpegCommandTool
        \<lparr>command = js ''ffmpeg -i in.mp4 out.mp4'', inputFile = None, outputFile = None,
         workingDirectory = None\<rparr> [ExecDone None [] []]))
      = [js ''ffmpeg -y -i in.mp4 out.mp4'']
   \<and> map shellCommand (spawned (executeFFmpegCommandTool
        \<lparr>command = js ''ffmpeg-all -i in.mp4'', inputFile = None, outputFile = None,
         workingDirectory = None\<rparr> [ExecDone None [] []]))
      = [js ''ffmpeg-all -i in.mp4'']"
proof -
  let ?ctx = "\<lparr>command = [], inputFile = None, outputFile = None, workingDirectory = None\<rparr>"
  have space: "isWhiteSpace 0x20"
    by (simp add: isWhiteSpace_def)
  have other: "case js ''-all -i in.mp4'' of [] \<Rightarrow> True | c # _ \<Rightarrow> \<not> isWhiteSpace c"
    by (simp add: js_def isWhiteSpace_def)
  from space other
    overwrite_flag[where w = "0x20" and ctx = ?ctx and rest = "js ''-i in.mp4 out.mp4''"
      and events = "[ExecDone None [] []]" and other = "js ''-all -i in.mp4''"]
  show ?thesis
    by (simp add: js_def)
qed

text \<open>
  Claim C5, as the specification states it, promises the flag for every accepted command
  that begins with \<^verbatim>\<open>ffmpeg\<close>. The command \<^verbatim>\<open>ffmpeg\<close> alone is accepted, and is handed to
  the shell as it is: the pattern of the replacement asks for a white-space character
  after the name.
\<close>

theorem overwrite_flag_counterexample:
  "startsWith (trim (js ''ffmpeg'')) (js ''ffmpeg'')
   \<and> map shellCommand (spawned (executeFFmpegCommandTool
        \<lparr>command = js ''ffmpeg'', inputFile = None, outputFile = None, workingDirectory = None\<rparr> []))
      = [js ''ffmpeg'']"
  by (simp add: executeFFmpegCommandTool_def executeCommand_def injectOverwriteFlag_def
      startsWith_def trim_def js_def isWhiteSpace_def)

section \<open>Properties of the capture session\<close>

lemma filter_kill:
  "filter (\<lambda>h. h \<notin> set (ks @ [k])) xs = filter (\<lambda>h. h \<noteq> k) (filter (\<lambda>h. h \<notin> set ks) xs)"
  by (induction xs) auto

lemma owned_kill:
  "ownedHandles (st\<lparr>killed := killed st @ [k]\<rparr>) = filter (\<lambda>h. h \<noteq> k) (ownedHandles st)"
  by (simp add: ownedHandles_def filter_kill conj_commute)

lemma owned_start:
  assumes "list_all (\<lambda>h. h < length (started st)) (killed st)"
  shows "ownedHandles (st\<lparr>captureOutputFile := f, captureProcess := p, started := started st @ [c]\<rparr>)
         = ownedHandles st @ [length (started st)]"
  using assms by (auto simp: ownedHandles_def list_all_iff)

lemma captureInv_initial: "captureInv initialCapture"
  by (simp add: captureInv_def initialCapture_def ownedHandles_def)

lemma captureInv_start:
  assumes "captureInv st"
  shows "captureInv (startCapture cmd file st)"
    and "ownedHandles (startCapture cmd file st) = [length (started st)]"
    and "captureProcess (startCapture cmd file st) = Some (length (started st))"
    and "captureOutputFile (startCapture cmd file st) = Some file"
    and "started (startCapture cmd file st) = started st @ [cmd]"
    and "killed (startCapture cmd file st) = killed st @ (case captureProcess st of None \<Rightarrow> [] | Some h \<Rightarrow> [h])"
proof -
  let ?st1 = "case captureProcess st of Some h \<Rightarrow> st\<lparr>killed := killed st @ [h]\<rparr> | None \<Rightarrow> st"
  have bound: "list_all (\<lambda>h. h < length (started ?st1)) (killed ?st1)"
  proof (cases "captureProcess st")
    case None
    with assms show ?thesis by (simp add: captureInv_def)
  next
    case (Some h)
    with assms have "h \<in> set (ownedHandles st)"
      by (simp add: captureInv_def)
    then have "h < length (started st)"
      by (simp add: ownedHandles_def)
    with assms Some show ?thesis by (auto simp: captureInv_def)
  qed
  have none: "ownedHandles ?st1 = []"
    using assms by (auto simp: captureInv_def owned_kill split: option.splits)
  have len: "length (started ?st1) = length (started st)"
    by (simp split: option.splits)
  have start: "startCapture cmd file st =
      ?st1\<lparr>captureOutputFile := Some file, captureProcess := Some (length (started ?st1)),
            started := started ?st1 @ [cmd]\<rparr>"
    by (simp add: startCapture_def Let_def)
  show owned: "ownedHandles (startCapture cmd file st) = [length (started st)]"
    unfolding start using owned_start[OF bound] none len by simp
  show proc: "captureProcess (startCapture cmd file st) = Some (length (started st))"
    unfolding start using len by simp
  show "captureOutputFile (startCapture cmd file st) = Some file"
    unfolding start by simp
  show "started (startCapture cmd file st) = started st @ [cmd]"
    unfolding start by (simp split: option.splits)
  show "killed (startCapture cmd file st) = killed st @ (case captureProcess st of None \<Rightarrow> [] | Some h \<Rightarrow> [h])"
    unfolding start by (simp split: option.splits)
  have "list_all (\<lambda>h. h < length (started (startCapture cmd file st))) (killed (startCapture cmd file st))"
    unfolding start using bound by (auto simp: less_Suc_eq list_all_iff)
  with owned proc show "captureInv (startCapture cmd file st)"
    by (simp add: captureInv_def)
qed

lemma captureInv_stop:
  assumes "captureInv st"
  shows "captureInv (fst (stopCapture st))"
proof (cases "captureProcess st")
  case None
  with assms show ?thesis by (simp add: stopCapture_def)
next
  case (Some h)
  with assms have "h \<in> set (ownedHandles st)"
    by (simp add: captureInv_def)
  then have "h < length (started st)"
    by (simp add: ownedHandles_def)
  moreover have "ownedHandles (st\<lparr>killed := killed st @ [h], captureProcess := None, captureOutputFile := None\<rparr>) = []"
    using assms Some owned_kill[of st h] by (simp add: captureInv_def ownedHandles_def)
  ultimately show ?thesis
    using assms Some by (auto simp: stopCapture_def captureInv_def)
qed

lemma captureInv_fold: "captureInv st \<Longrightarrow> captureInv (foldl applyOp st ops)"
proof (induction ops arbitrary: st)
  case Nil
  then show ?case by simp
next
  case (Cons op ops)
  have "captureInv (applyOp st op)"
    using Cons.prems by (cases op) (simp_all add: captureInv_start captureInv_stop)
  then show ?case
    using Cons.IH by simp
qed

lemma captureInv_runOps: "captureInv (runOps ops)"
  unfolding runOps_def by (rule captureInv_fold[OF captureInv_initial])

text \<open>
  Claim C8: the session owns at most one process at any time. After any history of the
  session, \<^verbatim>\<open>start(cmd1, fileA)\<close> followed by \<^verbatim>\<open>start(cmd2, fileB)\<close> kills the process of
  the first call during the second call and leaves the session running the process of
  \<open>cmd2\<close>, the only process it owns, with \<open>fileB\<close> as the recorded output file.
\<close>

theorem supersede:
  "(let st = runOps ops;
        st1 = startCapture cmd1 fileA st;
        st2 = startCapture cmd2 fileB st1;
        h1 = length (started st);
        h2 = Suc h1
    in length (ownedHandles st) \<le> 1
       \<and> captureProcess st1 = Some h1 \<and> started st1 ! h1 = cmd1 \<and> ownedHandles st1 = [h1]
       \<and> h1 \<in> set (killed st2)
       \<and> captureProcess st2 = Some h2 \<and> started st2 ! h2 = cmd2 \<and> ownedHandles st2 = [h2]
       \<and> captureOutputFile st2 = Some fileB)"
proof -
  let ?st = "runOps ops"
  let ?st1 = "startCapture cmd1 fileA ?st"
  let ?st2 = "startCapture cmd2 fileB ?st1"
  have inv: "captureInv ?st"
    by (rule captureInv_runOps)
  note one = captureInv_start[OF inv, of cmd1 fileA]
  note two = captureInv_start[OF one(1), of cmd2 fileB]
  have "length (ownedHandles ?st) \<le> 1"
    using inv by (simp add: captureInv_def split: option.splits)
  moreover have "started ?st1 ! length (started ?st) = cmd1"
    by (simp add: one(5))
  moreover have "length (started ?st1) = Suc (length (started ?st))"
    by (simp add: one(5))
  moreover have "started ?st2 ! Suc (length (started ?st)) = cmd2"
    by (simp add: two(5) one(5) nth_append)
  moreover have "length (started ?st) \<in> set (killed ?st2)"
    by (simp add: two(6) one(3))
  ultimately show ?thesis
    using one(2,3) two(2,3,4) by (simp add: Let_def)
qed

end
